theory Spec2Isabelle
  imports Complex_Main
begin

section \<open>Data model\<close>

text \<open>
  The work item of \<^verbatim>\<open>video-metadata.model.ts\<close>. A browser \<^verbatim>\<open>File\<close> is
  kept as its name, its declared media type and its bytes. The fields \<^verbatim>\<open>id\<close> and
  \<^verbatim>\<open>file\<close> carry the suffix \<open>_v\<close> (as does the keyword list) and
  \<^verbatim>\<open>type\<close> the suffix \<open>_f\<close>, because the plain names are taken in Isabelle.
\<close>

datatype Status = pending | processing | completed | failed

record File =
  name :: string
  type_f :: string
  content :: string

record VideoMetadata =
  id_v :: string
  file_v :: File
  thumbnail :: "string option"
  status :: Status
  title :: string
  keywords_v :: "string list"
  errorMessage :: "string option"

text \<open>
  The signals and the private flag of \<^verbatim>\<open>AppComponent\<close>. \<^verbatim>\<open>copiedState\<close> belongs
  to the clipboard helper only and is left out.
\<close>

record AppComponent =
  videos :: "VideoMetadata list"
  isProcessing :: bool
  isPaused :: bool
  currentIndex :: nat
  apiKeyMissing :: bool
  processQueueRunning :: bool

section \<open>The inference service\<close>

text \<open>
  \<^verbatim>\<open>GeminiService\<close>: the constructor builds the client only when the key read from the
  environment is truthy (a non-empty string); \<^verbatim>\<open>isConfigured\<close> tests the client.
\<close>

datatype GoogleGenAI = GoogleGenAI string

record GeminiService =
  apiKey :: "string option"
  ai :: "GoogleGenAI option"

definition truthy :: "string option \<Rightarrow> bool" where
  "truthy k = (case k of None \<Rightarrow> False | Some s \<Rightarrow> s \<noteq> [])"

definition newGeminiService :: "string option \<Rightarrow> GeminiService" where
  "newGeminiService envKey =
     \<lparr>apiKey = envKey,
      ai = (if truthy envKey then Some (GoogleGenAI (the envKey)) else None)\<rparr>"

definition isConfigured :: "GeminiService \<Rightarrow> bool" where
  "isConfigured svc = (ai svc \<noteq> None)"

text \<open>The component as constructed: empty queue, idle, cursor 0.\<close>

definition newAppComponent :: "GeminiService \<Rightarrow> AppComponent" where
  "newAppComponent svc =
     \<lparr>videos = [], isProcessing = False, isPaused = False, currentIndex = 0,
      apiKeyMissing = (\<not> isConfigured svc), processQueueRunning = False\<rparr>"

section \<open>Controller requests\<close>

text \<open>
  \<^verbatim>\<open>startProcessing\<close> returns the text of the alert it raised, if any, beside the
  state.
\<close>

definition startProcessing :: "AppComponent \<Rightarrow> string option \<times> AppComponent" where
  "startProcessing s =
     (if apiKeyMissing s then (Some ''API Key is missing. Cannot start processing.'', s)
      else (None, s\<lparr>isProcessing := True, isPaused := False\<rparr>))"

definition pauseProcessing :: "AppComponent \<Rightarrow> AppComponent" where
  "pauseProcessing s = s\<lparr>isPaused := True\<rparr>"

definition resumeProcessing :: "AppComponent \<Rightarrow> AppComponent" where
  "resumeProcessing s = s\<lparr>isPaused := False\<rparr>"

definition stopProcessing :: "AppComponent \<Rightarrow> AppComponent" where
  "stopProcessing s =
     s\<lparr>isProcessing := False, isPaused := False, currentIndex := length (videos s)\<rparr>"

definition retryFailed :: "AppComponent \<Rightarrow> string option \<times> AppComponent" where
  "retryFailed s = startProcessing (s\<lparr>currentIndex := 0\<rparr>)"

definition clearAll :: "AppComponent \<Rightarrow> AppComponent" where
  "clearAll s = s\<lparr>videos := [], currentIndex := 0, isProcessing := False, isPaused := False\<rparr>"

section \<open>Media decoding\<close>

text \<open>
  The browser, as far as the extractors use it: whether a 2d canvas context can be had,
  whether a file loads (the \<^verbatim>\<open>error\<close> event, or \<^verbatim>\<open>loadedmetadata\<close> with a duration),
  and the JPEG data URL of the picture the decoder shows after a seek to a given time.
  A JavaScript number is read as a real number. The decoder is taken to answer a load with
  exactly one of the two events and to complete every seek it is given.
  \<^verbatim>\<open>generateContent\<close> is the remote call together with the parsing of its answer:
  \<open>None\<close> stands for anything thrown inside the \<^verbatim>\<open>try\<close> of the service.
\<close>

datatype thrown = Error string | NonError

datatype load_result = LoadError | LoadedMetadata real

record InferenceResult =
  title_r :: string
  keywords_r :: "string list"

record Env =
  canvasContext :: bool
  loadVideo :: "File \<Rightarrow> load_result"
  toDataURL :: "File \<Rightarrow> real \<Rightarrow> string"
  generateContent :: "string option list \<Rightarrow> InferenceResult option"

text \<open>What an extractor does to the video element and the object URL, in order.\<close>

datatype dom_op =
  CreateObjectURL
  | SetCurrentTime real
  | AwaitSeeked
  | Capture string
  | RevokeObjectURL

text \<open>
  The \<^verbatim>\<open>for\<close> loop of \<^verbatim>\<open>extractFrames\<close>, from counter \<open>i\<close> on: set the time, wait
  for \<^verbatim>\<open>seeked\<close>, draw and encode, push.
\<close>

function framesLoop ::
  "Env \<Rightarrow> File \<Rightarrow> real \<Rightarrow> nat \<Rightarrow> nat \<Rightarrow> dom_op list \<times> string list
     \<Rightarrow> dom_op list \<times> string list" where
  "framesLoop env f interval frameCount i (ops, frames) =
     (if i \<le> frameCount then
        (let t = interval * real i; frame = toDataURL env f t
         in framesLoop env f interval frameCount (i + 1)
              (ops @ [SetCurrentTime t, AwaitSeeked, Capture frame], frames @ [frame]))
      else (ops, frames))"
  by pat_completeness auto
termination
  by (relation "measure (\<lambda>(env, f, interval, frameCount, i, acc). frameCount + 1 - i)") auto

declare framesLoop.simps [simp del]

definition extractFrames ::
  "Env \<Rightarrow> File \<Rightarrow> nat \<Rightarrow> dom_op list \<times> (thrown + string list)" where
  "extractFrames env f frameCount =
     (if \<not> canvasContext env then ([], Inl (Error ''Canvas context not available''))
      else (case loadVideo env f of
          LoadError \<Rightarrow>
            ([CreateObjectURL, RevokeObjectURL], Inl (Error ''Failed to load video file.''))
        | LoadedMetadata duration \<Rightarrow>
            (let interval = duration / real (frameCount + 1);
                 (ops, frames) = framesLoop env f interval frameCount 1 ([CreateObjectURL], [])
             in (ops @ [RevokeObjectURL], Inr frames))))"

definition extractSingleFrame ::
  "Env \<Rightarrow> File \<Rightarrow> real \<Rightarrow> dom_op list \<times> (thrown + string)" where
  "extractSingleFrame env f timeInSeconds =
     (if \<not> canvasContext env then ([], Inl (Error ''Canvas context not available''))
      else (case loadVideo env f of
          LoadError \<Rightarrow>
            ([CreateObjectURL, RevokeObjectURL],
             Inl (Error ''Failed to load video file for thumbnail.''))
        | LoadedMetadata duration \<Rightarrow>
            (let t = min timeInSeconds duration; frame = toDataURL env f t
             in ([CreateObjectURL, SetCurrentTime t, AwaitSeeked, Capture frame,
                  RevokeObjectURL], Inr frame))))"

section \<open>Metadata inference\<close>

text \<open>\<^verbatim>\<open>frame.split(',')[1]\<close>: the text between the first and the second comma.\<close>

fun split :: "char \<Rightarrow> string \<Rightarrow> string list" where
  "split sep [] = [[]]"
| "split sep (c # cs) =
     (if c = sep then [] # split sep cs
      else (case split sep cs of [] \<Rightarrow> [[c]] | w # ws \<Rightarrow> (c # w) # ws))"

definition inlineData :: "string \<Rightarrow> string option" where
  "inlineData frame =
     (let parts = split (CHR '','') frame in if 1 < length parts then Some (parts ! 1) else None)"

definition generateMetadataFromFrames ::
  "GeminiService \<Rightarrow> Env \<Rightarrow> string list \<Rightarrow> thrown + InferenceResult" where
  "generateMetadataFromFrames svc env frames =
     (if ai svc = None then Inl (Error ''Gemini API key is not configured.'')
      else (case generateContent env (map inlineData frames) of
          None \<Rightarrow> Inl (Error ''Failed to generate metadata from Gemini API.'')
        | Some result \<Rightarrow> Inr result))"

section \<open>Queue updates\<close>

definition updateVideoStatus :: "string \<Rightarrow> Status \<Rightarrow> AppComponent \<Rightarrow> AppComponent" where
  "updateVideoStatus i st s =
     s\<lparr>videos := map (\<lambda>v. if id_v v = i then v\<lparr>status := st, errorMessage := None\<rparr> else v)
                     (videos s)\<rparr>"

definition updateVideoResult ::
  "string \<Rightarrow> Status \<Rightarrow> string \<Rightarrow> string list \<Rightarrow> string option \<Rightarrow> AppComponent
     \<Rightarrow> AppComponent" where
  "updateVideoResult i st t ks err s =
     s\<lparr>videos := map (\<lambda>v. if id_v v = i
                           then v\<lparr>status := st, title := t, keywords_v := ks, errorMessage := err\<rparr>
                           else v)
                     (videos s)\<rparr>"

section \<open>Thumbnails and submission\<close>

text \<open>
  \<^verbatim>\<open>generateThumbnail\<close> returns what it wrote to the console, if anything, beside the
  state.
\<close>

definition messageOf :: "thrown \<Rightarrow> string" where
  "messageOf e = (case e of Error m \<Rightarrow> m | NonError \<Rightarrow> ''An unknown error occurred'')"

definition generateThumbnail ::
  "Env \<Rightarrow> VideoMetadata \<Rightarrow> AppComponent \<Rightarrow> string option \<times> AppComponent" where
  "generateThumbnail env video s =
     (case snd (extractSingleFrame env (file_v video) 1) of
        Inr frame \<Rightarrow>
          (None,
           s\<lparr>videos := map (\<lambda>v. if id_v v = id_v video then v\<lparr>thumbnail := Some frame\<rparr> else v)
                           (videos s)\<rparr>)
      | Inl e \<Rightarrow>
          (Some (''Failed to generate thumbnail for '' @ name (file_v video) @ '':''), s))"

definition startsWith :: "string \<Rightarrow> string \<Rightarrow> bool" where
  "startsWith str p = (take (length p) str = p)"

definition newVideo :: "File \<Rightarrow> string \<Rightarrow> VideoMetadata" where
  "newVideo f uuid =
     \<lparr>id_v = uuid, file_v = f, thumbnail = None, status = pending, title = [],
      keywords_v = [], errorMessage = None\<rparr>"

text \<open>
  \<^verbatim>\<open>onFileSelected\<close>: \<open>files\<close> is \<^verbatim>\<open>input.files\<close> (possibly null), \<open>uuids\<close> the
  results of the successive calls of \<^verbatim>\<open>crypto.randomUUID()\<close>, one per video file. The
  result holds the alert of the start request, the new items (for each of which a thumbnail
  generation has been launched) and the state.
\<close>

definition onFileSelected ::
  "File list option \<Rightarrow> string list \<Rightarrow> AppComponent
     \<Rightarrow> string option \<times> VideoMetadata list \<times> AppComponent" where
  "onFileSelected files uuids s =
     (case files of
        None \<Rightarrow> (None, [], s)
      | Some fs \<Rightarrow>
          (let newVideos = map2 newVideo (filter (\<lambda>f. startsWith (type_f f) ''video/'') fs) uuids;
               s1 = s\<lparr>videos := videos s @ newVideos\<rparr>
           in if \<not> isProcessing s1
              then (let (a, s2) = startProcessing s1 in (a, newVideos, s2))
              else (None, newVideos, s1)))"

section \<open>The traversal\<close>

text \<open>
  The calls a traversal makes to the frame extractor and to the inference service, each
  tagged with the id of the item it is made for.
\<close>

datatype request =
  ExtractFramesCall string File nat
  | GenerateMetadataCall string "string list"

definition eligible :: "VideoMetadata \<Rightarrow> bool" where
  "eligible video = (status video = pending \<or> status video = failed)"

text \<open>The body of the \<^verbatim>\<open>try\<close> after the status update, with the calls it makes.\<close>

definition tryBody ::
  "GeminiService \<Rightarrow> Env \<Rightarrow> VideoMetadata \<Rightarrow> request list \<times> (thrown + InferenceResult)" where
  "tryBody svc env video =
     (case snd (extractFrames env (file_v video) 8) of
        Inl e \<Rightarrow> ([ExtractFramesCall (id_v video) (file_v video) 8], Inl e)
      | Inr frames \<Rightarrow>
          ([ExtractFramesCall (id_v video) (file_v video) 8,
            GenerateMetadataCall (id_v video) frames],
           generateMetadataFromFrames svc env frames))"

text \<open>
  The two writes around the awaited calls: before them the item becomes
  \<open>processing\<close>; after them the outcome (a result, or what was caught) is recorded.
\<close>

definition beginItem :: "VideoMetadata \<Rightarrow> AppComponent \<Rightarrow> AppComponent" where
  "beginItem video s = updateVideoStatus (id_v video) processing s"

definition completeItem ::
  "VideoMetadata \<Rightarrow> thrown + InferenceResult \<Rightarrow> AppComponent \<Rightarrow> AppComponent" where
  "completeItem video outcome s =
     (case outcome of
        Inr metadata \<Rightarrow>
          updateVideoResult (id_v video) completed (title_r metadata) (keywords_r metadata) None s
      | Inl e \<Rightarrow> updateVideoResult (id_v video) failed [] [] (Some (messageOf e)) s)"

definition advance :: "AppComponent \<Rightarrow> AppComponent" where
  "advance s = s\<lparr>currentIndex := currentIndex s + 1\<rparr>"

definition loopGuard :: "AppComponent \<Rightarrow> bool" where
  "loopGuard s = (currentIndex s < length (videos s) \<and> isProcessing s \<and> \<not> isPaused s)"

text \<open>One pass through the body of the \<^verbatim>\<open>while\<close> loop, no other event in between.\<close>

definition processItem ::
  "GeminiService \<Rightarrow> Env \<Rightarrow> request list \<times> AppComponent \<Rightarrow> request list \<times> AppComponent" where
  "processItem svc env ls =
     (let s = snd ls; video = videos s ! currentIndex s
      in if eligible video
         then (let (reqs, outcome) = tryBody svc env video
               in (fst ls @ reqs, advance (completeItem video outcome (beginItem video s))))
         else (fst ls, advance s))"

lemma length_videos_processItem [simp]:
  "length (videos (snd (processItem svc env ls))) = length (videos (snd ls))"
  by (simp add: processItem_def Let_def advance_def completeItem_def beginItem_def
      updateVideoStatus_def updateVideoResult_def split: prod.splits sum.splits)

lemma currentIndex_processItem [simp]:
  "currentIndex (snd (processItem svc env ls)) = currentIndex (snd ls) + 1"
  by (simp add: processItem_def Let_def advance_def completeItem_def beginItem_def
      updateVideoStatus_def updateVideoResult_def split: prod.splits sum.splits)

function processLoop ::
  "GeminiService \<Rightarrow> Env \<Rightarrow> request list \<times> AppComponent \<Rightarrow> request list \<times> AppComponent" where
  "processLoop svc env ls =
     (if loopGuard (snd ls) then processLoop svc env (processItem svc env ls) else ls)"
  by pat_completeness auto
termination
  by (relation "measure (\<lambda>(svc, env, ls). length (videos (snd ls)) - currentIndex (snd ls))")
     (auto simp: loopGuard_def)

declare processLoop.simps [simp del]

definition finishQueue :: "AppComponent \<Rightarrow> AppComponent" where
  "finishQueue s =
     (let s1 = (if currentIndex s \<ge> length (videos s) then s\<lparr>isProcessing := False\<rparr> else s)
      in s1\<lparr>processQueueRunning := False\<rparr>)"

text \<open>
  \<^verbatim>\<open>processQueue\<close> run to its end with no other event in between, and the calls it made.
\<close>

definition processQueue ::
  "GeminiService \<Rightarrow> Env \<Rightarrow> AppComponent \<Rightarrow> request list \<times> AppComponent" where
  "processQueue svc env s =
     (let (reqs, s1) = processLoop svc env ([], s\<lparr>processQueueRunning := True\<rparr>)
      in (reqs, finishQueue s1))"

text \<open>The effect of the constructor: it launches the traversal when its condition holds.\<close>

definition effect :: "GeminiService \<Rightarrow> Env \<Rightarrow> AppComponent \<Rightarrow> request list \<times> AppComponent" where
  "effect svc env s =
     (if isProcessing s \<and> \<not> isPaused s \<and> \<not> processQueueRunning s then processQueue svc env s
      else ([], s))"

section \<open>The controller among other events\<close>

text \<open>
  \<^verbatim>\<open>processQueue\<close> is asynchronous: while it awaits the extractor and the service for
  one item, requests of the user, thumbnails and submissions are handled. The system is the
  component together with the item the suspended traversal holds in its local
  \<^verbatim>\<open>video\<close>, if a traversal is suspended. The two awaits of an item are one suspension,
  since nothing is written between them.
\<close>

record System =
  app :: AppComponent
  awaiting :: "VideoMetadata option"

text \<open>
  The \<^verbatim>\<open>while\<close> loop from its test on, up to the next await or to the end of
  \<^verbatim>\<open>processQueue\<close>.
\<close>

function runUntilAwait :: "AppComponent \<Rightarrow> System" where
  "runUntilAwait s =
     (if loopGuard s then
        (let video = videos s ! currentIndex s
         in if eligible video then \<lparr>app = beginItem video s, awaiting = Some video\<rparr>
            else runUntilAwait (advance s))
      else \<lparr>app = finishQueue s, awaiting = None\<rparr>)"
  by pat_completeness auto
termination
  by (relation "measure (\<lambda>s. length (videos s) - currentIndex s)")
     (auto simp: loopGuard_def advance_def)

declare runUntilAwait.simps [simp del]

text \<open>
  The events. \<open>Select\<close> is a file selection with the ids drawn for it, \<open>ThumbnailDone\<close>
  the end of a thumbnail generation in the browser as it then is, \<open>Launch\<close> a run of the
  constructor's effect that starts the traversal, \<open>Settle\<close> the end of the awaited calls
  with their outcome. The requests of the user are taken at any moment, whatever the
  template enables. A drawn id is new: not among the others drawn with it, not in the queue.
\<close>

datatype event =
  Select "File list option" "string list"
  | ThumbnailDone Env VideoMetadata
  | Start
  | Pause
  | Resume
  | Stop
  | Retry
  | Clear
  | Launch
  | Settle "thrown + InferenceResult"

definition freshIds :: "File list option \<Rightarrow> string list \<Rightarrow> AppComponent \<Rightarrow> bool" where
  "freshIds files uuids s =
     (case files of
        None \<Rightarrow> True
      | Some fs \<Rightarrow>
          length uuids = length (filter (\<lambda>f. startsWith (type_f f) ''video/'') fs)
          \<and> distinct uuids
          \<and> list_all (\<lambda>u. u \<notin> set (map id_v (videos s))) uuids)"

fun fire :: "event \<Rightarrow> System \<Rightarrow> System option" where
  "fire (Select files uuids) sys =
     (if freshIds files uuids (app sys)
      then Some (sys\<lparr>app := snd (snd (onFileSelected files uuids (app sys)))\<rparr>)
      else None)"
| "fire (ThumbnailDone env video) sys =
     Some (sys\<lparr>app := snd (generateThumbnail env video (app sys))\<rparr>)"
| "fire Start sys = Some (sys\<lparr>app := snd (startProcessing (app sys))\<rparr>)"
| "fire Pause sys = Some (sys\<lparr>app := pauseProcessing (app sys)\<rparr>)"
| "fire Resume sys = Some (sys\<lparr>app := resumeProcessing (app sys)\<rparr>)"
| "fire Stop sys = Some (sys\<lparr>app := stopProcessing (app sys)\<rparr>)"
| "fire Retry sys = Some (sys\<lparr>app := snd (retryFailed (app sys))\<rparr>)"
| "fire Clear sys = Some (sys\<lparr>app := clearAll (app sys)\<rparr>)"
| "fire Launch sys =
     (if isProcessing (app sys) \<and> \<not> isPaused (app sys) \<and> \<not> processQueueRunning (app sys)
      then Some (runUntilAwait ((app sys)\<lparr>processQueueRunning := True\<rparr>))
      else None)"
| "fire (Settle outcome) sys =
     (case awaiting sys of
        None \<Rightarrow> None
      | Some video \<Rightarrow> Some (runUntilAwait (advance (completeItem video outcome (app sys)))))"

fun run :: "event list \<Rightarrow> System \<Rightarrow> System option" where
  "run [] sys = Some sys"
| "run (e # es) sys = (case fire e sys of None \<Rightarrow> None | Some sys' \<Rightarrow> run es sys')"

definition initial :: "GeminiService \<Rightarrow> System" where
  "initial svc = \<lparr>app = newAppComponent svc, awaiting = None\<rparr>"

section \<open>CSV export\<close>

text \<open>
  \<^verbatim>\<open>downloadCSV\<close> up to the text handed to the \<^verbatim>\<open>Blob\<close>; \<open>None\<close> is the early
  return, when nothing is downloaded.
\<close>

definition dquote :: char where
  "dquote = CHR 0x22"

definition newline :: char where
  "newline = CHR 0x0A"

fun replaceQuotes :: "string \<Rightarrow> string" where
  "replaceQuotes [] = []"
| "replaceQuotes (c # cs) =
     (if c = dquote then dquote # dquote # replaceQuotes cs else c # replaceQuotes cs)"

definition escape :: "string \<Rightarrow> string" where
  "escape str = dquote # replaceQuotes str @ [dquote]"

fun join :: "string \<Rightarrow> string list \<Rightarrow> string" where
  "join sep [] = []"
| "join sep [x] = x"
| "join sep (x # y # ys) = x @ sep @ join sep (y # ys)"

definition csvRow :: "VideoMetadata \<Rightarrow> string" where
  "csvRow v =
     join '','' [escape (name (file_v v)), escape (title v), escape (join '', '' (keywords_v v))]"

definition downloadCSV :: "AppComponent \<Rightarrow> string option" where
  "downloadCSV s =
     (let completedVideos = filter (\<lambda>v. status v = completed) (videos s)
      in if length completedVideos = 0 then None
         else (let header = ''Filename,Title,Keywords'' @ [newline];
                   rows = join [newline] (map csvRow completedVideos)
               in Some (header @ rows)))"

section \<open>Derived notions\<close>

text \<open>What one round of the extractor's loop does to the decoder.\<close>

definition frameSlot :: "Env \<Rightarrow> File \<Rightarrow> real \<Rightarrow> nat \<Rightarrow> dom_op list" where
  "frameSlot env f interval i =
     [SetCurrentTime (interval * real i), AwaitSeeked, Capture (toDataURL env f (interval * real i))]"

text \<open>A system that has no key and is not processing.\<close>

definition blocked :: "System \<Rightarrow> bool" where
  "blocked sys = (apiKeyMissing (app sys) \<and> \<not> isProcessing (app sys))"

text \<open>Everything of an item but its thumbnail.\<close>

definition itemCore ::
  "VideoMetadata \<Rightarrow> string \<times> File \<times> Status \<times> string \<times> string list \<times> string option" where
  "itemCore v = (id_v v, file_v v, status v, title v, keywords_v v, errorMessage v)"

text \<open>
  A field as the interface describes it: wrapped in double quotes, every double quote inside
  doubled. \<^verbatim>\<open>escape\<close> computes it.
\<close>

definition quotedField_spec :: "string \<Rightarrow> string" where
  "quotedField_spec str =
     [dquote] @ concat (map (\<lambda>c. if c = dquote then [dquote, dquote] else [c]) str) @ [dquote]"

text \<open>
  What a visit makes of an item, and the calls it costs: an item that is not eligible is
  left alone and costs nothing.
\<close>

definition settled :: "GeminiService \<Rightarrow> Env \<Rightarrow> VideoMetadata \<Rightarrow> VideoMetadata" where
  "settled svc env v =
     (if eligible v then
        (case snd (tryBody svc env v) of
           Inr m \<Rightarrow> v\<lparr>status := completed, title := title_r m, keywords_v := keywords_r m,
                     errorMessage := None\<rparr>
         | Inl e \<Rightarrow> v\<lparr>status := failed, title := [], keywords_v := [],
                     errorMessage := Some (messageOf e)\<rparr>)
      else v)"

definition requestsFor :: "GeminiService \<Rightarrow> Env \<Rightarrow> VideoMetadata \<Rightarrow> request list" where
  "requestsFor svc env v = (if eligible v then fst (tryBody svc env v) else [])"

text \<open>The item a call was made for.\<close>

fun requestId :: "request \<Rightarrow> string" where
  "requestId (ExtractFramesCall i f n) = i"
| "requestId (GenerateMetadataCall i frames) = i"

text \<open>
  What the data model asks of an item: an error message only on a failed item, a title and
  keywords only on a completed one. A queue is well formed when its ids are distinct and
  every item is as asked.
\<close>

definition itemInvariant :: "VideoMetadata \<Rightarrow> bool" where
  "itemInvariant v =
     ((errorMessage v \<noteq> None \<longrightarrow> status v = failed)
      \<and> (status v \<noteq> completed \<longrightarrow> title v = [] \<and> keywords_v v = []))"

definition wellFormed :: "AppComponent \<Rightarrow> bool" where
  "wellFormed s = (distinct (map id_v (videos s)) \<and> list_all itemInvariant (videos s))"

section \<open>Sample browsers, files and states\<close>

text \<open>Three video files; \<^verbatim>\<open>bad.mp4\<close> is the one that some browsers below fail to load.\<close>

definition clip :: File where
  "clip = \<lparr>name = ''a.mp4'', type_f = ''video/mp4'', content = []\<rparr>"

definition badClip :: File where
  "badClip = \<lparr>name = ''bad.mp4'', type_f = ''video/mp4'', content = []\<rparr>"

definition trailer :: File where
  "trailer = \<lparr>name = ''b.webm'', type_f = ''video/webm'', content = []\<rparr>"

text \<open>A service with a key, and the answer of the remote call in the scenarios.\<close>

definition svcKey :: GeminiService where
  "svcKey = newGeminiService (Some ''key'')"

definition answer :: InferenceResult where
  "answer = \<lparr>title_r = ''T'', keywords_r = [''a'', ''b'']\<rparr>"

text \<open>
  Browsers: \<open>env0\<close> loads every file with duration 9 and shows a different picture
  before and after second 5; \<open>envClock\<close> loads every file with duration 9 too and shows
  one picture at second 1 exactly and another at any other time; in \<open>envShort\<close> every file lasts half a second,
  with one picture at that half second and another elsewhere; in
  \<open>envBroken\<close> no file loads; in \<open>envMixed\<close> all files load but \<^verbatim>\<open>bad.mp4\<close>. The
  remote call fails in all of these. In \<open>envGood\<close> every file loads and the remote call
  answers.
\<close>

definition env0 :: Env where
  "env0 = \<lparr>canvasContext = True, loadVideo = (\<lambda>f. LoadedMetadata 9),
      toDataURL = (\<lambda>f t. if t < 5 then ''early'' else ''late''),
      generateContent = (\<lambda>p. None)\<rparr>"

definition envClock :: Env where
  "envClock = \<lparr>canvasContext = True, loadVideo = (\<lambda>f. LoadedMetadata 9),
      toDataURL = (\<lambda>f t. if t = 1 then ''second 1'' else ''elsewhere''),
      generateContent = (\<lambda>p. None)\<rparr>"

definition envShort :: Env where
  "envShort = \<lparr>canvasContext = True, loadVideo = (\<lambda>f. LoadedMetadata (1 / 2)),
      toDataURL = (\<lambda>f t. if t = 1 / 2 then ''half'' else ''elsewhere''),
      generateContent = (\<lambda>p. None)\<rparr>"

definition envBroken :: Env where
  "envBroken = \<lparr>canvasContext = True, loadVideo = (\<lambda>f. LoadError),
      toDataURL = (\<lambda>f t. []), generateContent = (\<lambda>p. None)\<rparr>"


definition envGood :: Env where
  "envGood = \<lparr>canvasContext = True, loadVideo = (\<lambda>f. LoadedMetadata 9),
      toDataURL = (\<lambda>f t. ''data:image/jpeg;base64,AAAA''),
      generateContent = (\<lambda>p. Some answer)\<rparr>"

text \<open>A queue of one pending item, and one of two, with the processing started.\<close>

definition queued :: AppComponent where
  "queued = \<lparr>videos = [newVideo clip ''u1''], isProcessing = True, isPaused = False,
      currentIndex = 0, apiKeyMissing = False, processQueueRunning = False\<rparr>"

definition twoPending :: AppComponent where
  "twoPending = \<lparr>videos = [newVideo badClip ''u1'', newVideo clip ''u2''], isProcessing = True,
      isPaused = False, currentIndex = 0, apiKeyMissing = False, processQueueRunning = False\<rparr>"

text \<open>
  Queues after a pass, the first item completed and the second failed: one whose title is
  \<^verbatim>\<open>He said "hi"\<close>, one whose first item has a thumbnail.
\<close>

definition quip :: string where
  "quip = ''He said '' @ [dquote] @ ''hi'' @ [dquote]"

definition exported :: AppComponent where
  "exported =
     \<lparr>videos =
        [(newVideo clip ''u1'')\<lparr>status := completed, title := quip, keywords_v := [''a'', ''b'']\<rparr>,
         (newVideo clip ''u2'')\<lparr>status := failed, errorMessage := Some ''Failed to load video file.''\<rparr>],
      isProcessing = False, isPaused = False, currentIndex = 2, apiKeyMissing = False,
      processQueueRunning = False\<rparr>"

definition afterFirstPass :: AppComponent where
  "afterFirstPass =
     \<lparr>videos =
        [(newVideo clip ''u1'')\<lparr>thumbnail := Some ''thumb'', status := completed, title := ''Old'',
                                keywords_v := [''k'']\<rparr>,
         (newVideo clip ''u2'')\<lparr>status := failed, errorMessage := Some ''Failed to load video file.''\<rparr>],
      isProcessing = False, isPaused = False, currentIndex = 2, apiKeyMissing = False,
      processQueueRunning = False\<rparr>"

text \<open>
  Two files are submitted and the traversal is launched; the first file fails to load, the
  second is completed. \<open>passed\<close> is the system after these events.
\<close>

definition firstPass :: "event list" where
  "firstPass =
     [Select (Some [badClip, clip]) [''u1'', ''u2''], Launch,
      Settle (Inl (Error ''Failed to load video file.'')), Settle (Inr answer)]"

definition passed :: System where
  "passed =
     \<lparr>app = \<lparr>videos =
          [(newVideo badClip ''u1'')\<lparr>status := failed,
             errorMessage := Some ''Failed to load video file.''\<rparr>,
           (newVideo clip ''u2'')\<lparr>status := completed, title := ''T'',
             keywords_v := [''a'', ''b'']\<rparr>],
        isProcessing = False, isPaused = False, currentIndex = 2, apiKeyMissing = False,
        processQueueRunning = False\<rparr>,
      awaiting = None\<rparr>"

section \<open>Requests that do not depend on the queue contents\<close>

text \<open>
  C7. Stop and pause are idempotent: a second stop right after a stop, and a second pause
  right after a pause, leave every component of the state (isProcessing, isPaused, cursor,
  queue) as the first call left it.
\<close>

theorem stop_pause_idempotent:
  "stopProcessing (stopProcessing s) = stopProcessing s
   \<and> pauseProcessing (pauseProcessing s) = pauseProcessing s"
  by (simp add: stopProcessing_def pauseProcessing_def)

section \<open>The frame extractor\<close>

lemma framesLoop_unfold:
  "framesLoop env f interval n i (ops, frames) =
     (ops @ concat (map (frameSlot env f interval) [i..<Suc n]),
      frames @ map (\<lambda>k. toDataURL env f (interval * real k)) [i..<Suc n])"
proof (induction env f interval n i "(ops, frames)" arbitrary: ops frames rule: framesLoop.induct)
  case (1 env f interval frameCount i ops frames)
  show ?case
  proof (cases "i \<le> frameCount")
    case True
    then have "[i..<Suc frameCount] = i # [Suc i..<Suc frameCount]"
      by (simp add: upt_conv_Cons)
    with True 1 show ?thesis
      by (simp add: Let_def frameSlot_def framesLoop.simps[of _ _ _ _ i])
  next
    case False
    then show ?thesis by (simp add: framesLoop.simps[of _ _ _ _ i])
  qed
qed

text \<open>
  C1. With a canvas context at hand, for a frame count \<open>N \<ge> 1\<close> and a file that loads with
  duration \<open>D\<close>, the extractor resolves with exactly \<open>N\<close> images. What it does to the
  decoder is, for \<open>i = 1, ..., N\<close> in this order, a seek to \<open>D / (N + 1) * i\<close>, the wait
  for its completion and the capture of the picture shown then: the seek \<open>i + 1\<close> comes
  after the capture \<open>i\<close>. The object URL is created before and revoked after.
\<close>

theorem extractFrames_schedule:
  assumes "canvasContext env" and "loadVideo env f = LoadedMetadata D" and "1 \<le> N"
  shows "extractFrames env f N =
           (CreateObjectURL #
              concat (map (\<lambda>i. [SetCurrentTime (D / real (N + 1) * real i), AwaitSeeked,
                                 Capture (toDataURL env f (D / real (N + 1) * real i))])
                       [1..<Suc N])
              @ [RevokeObjectURL],
            Inr (map (\<lambda>i. toDataURL env f (D / real (N + 1) * real i)) [1..<Suc N]))
         \<and> length (map (\<lambda>i. toDataURL env f (D / real (N + 1) * real i)) [1..<Suc N]) = N"
  using assms
  by (simp add: extractFrames_def framesLoop_unfold frameSlot_def[abs_def])

theorem extractFrames_schedule_witness:
  "extractFrames env0 \<lparr>name = ''a.mp4'', type_f = ''video/mp4'', content = []\<rparr> 2 =
     ([CreateObjectURL, SetCurrentTime 3, AwaitSeeked, Capture ''early'',
       SetCurrentTime 6, AwaitSeeked, Capture ''late'', RevokeObjectURL],
      Inr [''early'', ''late''])"
  using extractFrames_schedule
    [of env0 "\<lparr>name = ''a.mp4'', type_f = ''video/mp4'', content = []\<rparr>" 9 2]
  by (simp add: env0_def upt_conv_Cons)

section \<open>The start gate\<close>

lemma startProcessing_rejected:
  "apiKeyMissing s \<Longrightarrow> startProcessing s = (Some ''API Key is missing. Cannot start processing.'', s)"
  by (simp add: startProcessing_def)

lemma runUntilAwait_apiKeyMissing [simp]:
  "apiKeyMissing (app (runUntilAwait s)) = apiKeyMissing s"
proof (induction s rule: runUntilAwait.induct)
  case (1 s)
  then show ?case
    by (subst runUntilAwait.simps)
       (simp add: Let_def beginItem_def updateVideoStatus_def finishQueue_def advance_def)
qed

lemma runUntilAwait_isProcessing:
  "isProcessing (app (runUntilAwait s)) \<Longrightarrow> isProcessing s"
proof (induction s rule: runUntilAwait.induct)
  case (1 s)
  from "1.prems" have "isProcessing (app (if loopGuard s then
        (let video = videos s ! currentIndex s
         in if eligible video then \<lparr>app = beginItem video s, awaiting = Some video\<rparr>
            else runUntilAwait (advance s))
      else \<lparr>app = finishQueue s, awaiting = None\<rparr>))"
    by (subst (asm) runUntilAwait.simps)
  with "1.IH" show ?case
    by (auto simp: Let_def beginItem_def updateVideoStatus_def finishQueue_def advance_def
        split: if_splits)
qed

lemma fire_blocked:
  assumes "blocked sys" and "fire e sys = Some sys'"
  shows "blocked sys'"
proof (cases e)
  case (Select files uuids)
  with assms show ?thesis
    by (auto simp: blocked_def onFileSelected_def startProcessing_def Let_def
        split: if_splits option.splits)
next
  case (ThumbnailDone env video)
  with assms show ?thesis
    by (auto simp: blocked_def generateThumbnail_def split: sum.splits)
next
  case (Settle outcome)
  with assms show ?thesis
    by (auto simp: blocked_def completeItem_def updateVideoResult_def advance_def
        split: option.splits sum.splits dest!: runUntilAwait_isProcessing)
qed (use assms in \<open>auto simp: blocked_def startProcessing_def pauseProcessing_def
      resumeProcessing_def stopProcessing_def retryFailed_def clearAll_def split: if_splits\<close>)

lemma run_blocked:
  "blocked sys \<Longrightarrow> run es sys = Some sys' \<Longrightarrow> blocked sys'"
  by (induction es arbitrary: sys) (auto split: option.splits dest: fire_blocked)

lemma unconfigured_blocked:
  "\<not> isConfigured svc \<Longrightarrow> run es (initial svc) = Some sys \<Longrightarrow> blocked sys"
  by (rule run_blocked[of "initial svc"]) (simp_all add: blocked_def initial_def newAppComponent_def)

text \<open>
  C2. In every state the component reaches with an unconfigured inference client (no API
  key), a start request is rejected with the alert and changes nothing: isProcessing was
  false and stays false, isPaused and the cursor are unchanged, and every queued item keeps
  its status.
\<close>

theorem start_rejected_when_unconfigured:
  assumes "\<not> isConfigured svc" and "run es (initial svc) = Some sys"
  shows "startProcessing (app sys) =
           (Some ''API Key is missing. Cannot start processing.'', app sys)
         \<and> \<not> isProcessing (app sys)
         \<and> \<not> isProcessing (snd (startProcessing (app sys)))
         \<and> isPaused (snd (startProcessing (app sys))) = isPaused (app sys)
         \<and> currentIndex (snd (startProcessing (app sys))) = currentIndex (app sys)
         \<and> map status (videos (snd (startProcessing (app sys)))) = map status (videos (app sys))"
  using unconfigured_blocked[OF assms] by (simp add: blocked_def startProcessing_rejected)

theorem start_rejected_when_unconfigured_witness:
  "\<exists>sys. run [Select (Some [clip]) [''u1'']] (initial (newGeminiService None)) = Some sys
     \<and> map status (videos (app sys)) = [pending]
     \<and> startProcessing (app sys)
         = (Some ''API Key is missing. Cannot start processing.'', app sys)
     \<and> \<not> isProcessing (snd (startProcessing (app sys)))
     \<and> map status (videos (snd (startProcessing (app sys)))) = [pending]"
proof -
  have c: "\<not> isConfigured (newGeminiService None)"
    by (simp add: isConfigured_def newGeminiService_def truthy_def)
  have r: "run [Select (Some [clip]) [''u1'']] (initial (newGeminiService None))
      = Some \<lparr>app = \<lparr>videos = [newVideo clip ''u1''], isProcessing = False, isPaused = False,
                 currentIndex = 0, apiKeyMissing = True, processQueueRunning = False\<rparr>,
              awaiting = None\<rparr>"
    by (simp add: initial_def newAppComponent_def isConfigured_def newGeminiService_def
        truthy_def freshIds_def onFileSelected_def startsWith_def clip_def startProcessing_def Let_def)
  show ?thesis
    using start_rejected_when_unconfigured[OF c r] r
    by (simp add: newVideo_def)
qed

text \<open>
  C10. When the inference client is unconfigured, a retry request still resets the cursor
  to 0 although the start request inside it is rejected: after \<^verbatim>\<open>retryFailed\<close> the
  cursor is 0 while isProcessing and isPaused remain false. The cursor is not restored.
\<close>

theorem retry_unconfigured_resets_cursor:
  assumes "apiKeyMissing s" and "\<not> isProcessing s" and "\<not> isPaused s"
  shows "retryFailed s =
           (Some ''API Key is missing. Cannot start processing.'', s\<lparr>currentIndex := 0\<rparr>)
         \<and> currentIndex (snd (retryFailed s)) = 0
         \<and> \<not> isProcessing (snd (retryFailed s))
         \<and> \<not> isPaused (snd (retryFailed s))"
  using assms by (simp add: retryFailed_def startProcessing_def)

text \<open>After a submission and a stop the cursor is 1; the rejected retry leaves it at 0.\<close>

theorem retry_unconfigured_resets_cursor_witness:
  "\<exists>sys. run [Select (Some [clip]) [''u1''], Stop] (initial (newGeminiService None)) = Some sys
     \<and> apiKeyMissing (app sys) \<and> \<not> isProcessing (app sys) \<and> \<not> isPaused (app sys)
     \<and> currentIndex (app sys) = 1
     \<and> currentIndex (snd (retryFailed (app sys))) = 0
     \<and> \<not> isProcessing (snd (retryFailed (app sys)))
     \<and> \<not> isPaused (snd (retryFailed (app sys)))"
proof -
  define s where "s = \<lparr>videos = [newVideo clip ''u1''], isProcessing = False, isPaused = False,
                 currentIndex = 1, apiKeyMissing = True, processQueueRunning = False\<rparr>"
  have r: "run [Select (Some [clip]) [''u1''], Stop] (initial (newGeminiService None))
      = Some \<lparr>app = s, awaiting = None\<rparr>"
    by (simp add: s_def initial_def newAppComponent_def isConfigured_def newGeminiService_def
        truthy_def freshIds_def onFileSelected_def startsWith_def clip_def startProcessing_def Let_def
        stopProcessing_def)
  have "apiKeyMissing s" "\<not> isProcessing s" "\<not> isPaused s" "currentIndex s = 1"
    by (simp_all add: s_def)
  with retry_unconfigured_resets_cursor[of s] r show ?thesis
    by simp
qed

section \<open>Thumbnails\<close>

lemma itemCore_thumbnail [simp]: "itemCore (v\<lparr>thumbnail := t\<rparr>) = itemCore v"
  by (simp add: itemCore_def)

text \<open>
  C9. A thumbnail generation that fails returns normally, with a line for the console, and
  leaves the whole state as it was, so the thumbnail stays absent. Failed or not, it leaves
  every item's id, file, status, title, keywords and errorMessage, and the controller's
  flags and cursor, exactly as they were without it. When the file loads with duration
  \<open>D\<close>, the one seek requested is to \<open>min 1 D\<close> seconds, and the generation writes the
  picture shown at \<open>min 1 D\<close> seconds as the thumbnail of the item with the id of the
  video, and nothing else.
\<close>

theorem generateThumbnail_only_thumbnail:
  "(snd (extractSingleFrame env (file_v video) 1) = Inl e
        \<longrightarrow> generateThumbnail env video s
            = (Some (''Failed to generate thumbnail for '' @ name (file_v video) @ '':''), s))
   \<and> map itemCore (videos (snd (generateThumbnail env video s))) = map itemCore (videos s)
   \<and> isProcessing (snd (generateThumbnail env video s)) = isProcessing s
   \<and> isPaused (snd (generateThumbnail env video s)) = isPaused s
   \<and> currentIndex (snd (generateThumbnail env video s)) = currentIndex s
   \<and> (canvasContext env \<and> loadVideo env (file_v video) = LoadedMetadata D
        \<longrightarrow> extractSingleFrame env (file_v video) 1
            = ([CreateObjectURL, SetCurrentTime (min 1 D), AwaitSeeked,
                Capture (toDataURL env (file_v video) (min 1 D)), RevokeObjectURL],
               Inr (toDataURL env (file_v video) (min 1 D))))
   \<and> (canvasContext env \<and> loadVideo env (file_v video) = LoadedMetadata D
        \<longrightarrow> generateThumbnail env video s
            = (None,
               s\<lparr>videos :=
                    map (\<lambda>v. if id_v v = id_v video
                              then v\<lparr>thumbnail := Some (toDataURL env (file_v video) (min 1 D))\<rparr>
                              else v)
                      (videos s)\<rparr>))"
  by (auto simp: generateThumbnail_def extractSingleFrame_def Let_def o_def
      split: sum.splits load_result.splits)

theorem generateThumbnail_only_thumbnail_witness:
  "generateThumbnail envBroken (newVideo clip ''u1'') queued
     = (Some ''Failed to generate thumbnail for a.mp4:'', queued)
   \<and> extractSingleFrame envClock clip 1
     = ([CreateObjectURL, SetCurrentTime 1, AwaitSeeked, Capture ''second 1'', RevokeObjectURL],
        Inr ''second 1'')
   \<and> extractSingleFrame envShort clip 1
     = ([CreateObjectURL, SetCurrentTime (1 / 2), AwaitSeeked, Capture ''half'', RevokeObjectURL],
        Inr ''half'')
   \<and> map thumbnail (videos (snd (generateThumbnail envClock (newVideo clip ''u2'') twoPending)))
     = [None, Some ''second 1'']
   \<and> map thumbnail (videos (snd (generateThumbnail envShort (newVideo clip ''u1'') queued)))
     = [Some ''half'']
   \<and> map itemCore (videos (snd (generateThumbnail envClock (newVideo clip ''u2'') twoPending)))
     = [(''u1'', badClip, pending, [], [], None), (''u2'', clip, pending, [], [], None)]"
proof -
  have b: "snd (extractSingleFrame envBroken (file_v (newVideo clip ''u1'')) 1)
      = Inl (Error ''Failed to load video file for thumbnail.'')"
    by (simp add: extractSingleFrame_def envBroken_def)
  have f: "file_v (newVideo clip u) = clip" "id_v (newVideo clip u) = u" "name clip = ''a.mp4''" for u
    by (simp_all add: newVideo_def clip_def)
  have l: "canvasContext envClock" "loadVideo envClock clip = LoadedMetadata 9"
    "canvasContext envShort" "loadVideo envShort clip = LoadedMetadata (1 / 2)"
    by (simp_all add: envClock_def envShort_def)
  have t: "toDataURL envClock clip 1 = ''second 1''" "toDataURL envShort clip (1 / 2) = ''half''"
    by (simp_all add: envClock_def envShort_def)
  have q: "videos queued = [newVideo clip ''u1'']"
    "videos twoPending = [newVideo badClip ''u1'', newVideo clip ''u2'']"
    "itemCore (newVideo g u) = (u, g, pending, [], [], None)"
    "id_v (newVideo g u) = u" "thumbnail (newVideo g u) = None" for g u
    by (simp_all add: queued_def twoPending_def itemCore_def newVideo_def)
  show ?thesis
    using generateThumbnail_only_thumbnail
        [of envBroken "newVideo clip ''u1''" "Error ''Failed to load video file for thumbnail.''"
          queued 0]
      generateThumbnail_only_thumbnail [of envClock "newVideo clip ''u2''" NonError twoPending 9]
      generateThumbnail_only_thumbnail [of envShort "newVideo clip ''u1''" NonError queued "1 / 2"]
      b f l t q
    by simp
qed

section \<open>The exported document\<close>

lemma escape_quotedField: "escape str = quotedField_spec str"
  by (induction str) (simp_all add: escape_def quotedField_spec_def)

text \<open>Nothing is downloaded exactly when no item is completed.\<close>

lemma downloadCSV_None_iff:
  "downloadCSV s = None \<longleftrightarrow> (\<forall>v \<in> set (videos s). status v \<noteq> completed)"
  by (auto simp: downloadCSV_def Let_def filter_empty_conv)

text \<open>
  C6. A document that \<^verbatim>\<open>downloadCSV\<close> produces is the header
  \<^verbatim>\<open>Filename,Title,Keywords\<close>, a line break, and the rows joined by line breaks: exactly
  one row per completed item, in queue order, made of the file name, the title and the
  keywords joined with a comma and a space, each of the three wrapped in double quotes with
  the inner double quotes doubled, and separated by commas.
\<close>

theorem downloadCSV_document:
  assumes "downloadCSV s = Some doc"
  shows "\<exists>rows. doc = ''Filename,Title,Keywords'' @ [newline] @ join [newline] rows
           \<and> rows = map (\<lambda>v. quotedField_spec (name (file_v v)) @ '','' @ quotedField_spec (title v)
                               @ '','' @ quotedField_spec (join '', '' (keywords_v v)))
                       (filter (\<lambda>v. status v = completed) (videos s))
           \<and> length rows = length (filter (\<lambda>v. status v = completed) (videos s))
           \<and> 0 < length rows"
proof -
  let ?done = "filter (\<lambda>v. status v = completed) (videos s)"
  have row: "csvRow = (\<lambda>v. quotedField_spec (name (file_v v)) @ '','' @ quotedField_spec (title v)
                               @ '','' @ quotedField_spec (join '', '' (keywords_v v)))"
    by (rule ext) (simp add: csvRow_def escape_quotedField)
  from assms have "?done \<noteq> []"
    and "doc = ''Filename,Title,Keywords'' @ [newline] @ join [newline] (map csvRow ?done)"
    by (auto simp: downloadCSV_def Let_def split: if_splits)
  then show ?thesis
    by (simp add: row)
qed

theorem downloadCSV_document_witness:
  "downloadCSV exported =
     Some (''Filename,Title,Keywords'' @ [newline]
           @ [dquote] @ ''a.mp4'' @ [dquote] @ '',''
           @ [dquote] @ ''He said '' @ [dquote, dquote] @ ''hi'' @ [dquote, dquote] @ [dquote] @ '',''
           @ [dquote] @ ''a, b'' @ [dquote])"
proof -
  have d: "downloadCSV exported = Some (the (downloadCSV exported))"
    by (simp add: downloadCSV_def exported_def newVideo_def Let_def)
  from downloadCSV_document[OF d] show ?thesis
    apply (subst d)
    apply (simp add: exported_def newVideo_def quip_def quotedField_spec_def clip_def dquote_def)
    done
qed

section \<open>The traversal in closed form\<close>

text \<open>
  The queue updates address an item by its id. When the ids of the queue are distinct, an
  update for the id of the item at an index rewrites that index and nothing else.
\<close>

lemma map_at_id:
  assumes "distinct (map id_v vs)" and "c < length vs"
  shows "map (\<lambda>v. if id_v v = id_v (vs ! c) then g v else v) vs = vs[c := g (vs ! c)]"
proof (rule nth_equalityI)
  show "length (map (\<lambda>v. if id_v v = id_v (vs ! c) then g v else v) vs) = length (vs[c := g (vs ! c)])"
    by simp
next
  fix i
  assume "i < length (map (\<lambda>v. if id_v v = id_v (vs ! c) then g v else v) vs)"
  then have i: "i < length vs" by simp
  have "id_v (vs ! i) = id_v (vs ! c) \<longleftrightarrow> i = c"
    using assms i nth_eq_iff_index_eq[of "map id_v vs" i c] by auto
  with i assms(2)
  show "map (\<lambda>v. if id_v v = id_v (vs ! c) then g v else v) vs ! i = vs[c := g (vs ! c)] ! i"
    by (auto simp: nth_list_update)
qed

lemma map_id_v_update:
  assumes "c < length vs" and "id_v w = id_v (vs ! c)"
  shows "map id_v (vs[c := w]) = map id_v vs"
proof -
  have "map id_v (vs[c := w]) = (map id_v vs)[c := map id_v vs ! c]"
    using assms by (simp add: map_update)
  then show ?thesis by simp
qed

lemma id_v_settled [simp]: "id_v (settled svc env v) = id_v v"
  by (simp add: settled_def split: sum.splits)

lemma processItem_closed:
  assumes "distinct (map id_v (videos s))" and "currentIndex s < length (videos s)"
  shows "processItem svc env (l, s) =
           (l @ requestsFor svc env (videos s ! currentIndex s),
            s\<lparr>videos := (videos s)[currentIndex s := settled svc env (videos s ! currentIndex s)],
              currentIndex := currentIndex s + 1\<rparr>)"
proof -
  let ?c = "currentIndex s" and ?vs = "videos s"
  let ?v = "?vs ! ?c"
  have begun: "videos (beginItem ?v s) = ?vs[?c := ?v\<lparr>status := processing, errorMessage := None\<rparr>]"
    using assms by (simp add: beginItem_def updateVideoStatus_def map_at_id)
  have d': "distinct (map id_v (videos (beginItem ?v s)))"
    using assms by (simp add: begun map_id_v_update)
  have c': "?c < length (videos (beginItem ?v s))"
    using assms by (simp add: begun)
  have at: "videos (beginItem ?v s) ! ?c = ?v\<lparr>status := processing, errorMessage := None\<rparr>"
    using assms by (simp add: begun)
  have idat: "id_v ?v = id_v (videos (beginItem ?v s) ! ?c)"
    by (simp add: at)
  have fin: "videos (completeItem ?v outcome (beginItem ?v s)) =
      ?vs[?c := (case outcome of
           Inr m \<Rightarrow> ?v\<lparr>status := completed, title := title_r m, keywords_v := keywords_r m,
                     errorMessage := None\<rparr>
         | Inl e \<Rightarrow> ?v\<lparr>status := failed, title := [], keywords_v := [],
                     errorMessage := Some (messageOf e)\<rparr>)]" for outcome
    unfolding completeItem_def updateVideoResult_def
    using assms(2)
    by (cases outcome) (simp_all add: idat map_at_id[OF d' c'], simp_all add: begun)
  show ?thesis
  proof (cases "eligible ?v")
    case False
    then have "?vs[?c := settled svc env ?v] = ?vs"
      by (simp add: settled_def)
    with False show ?thesis
      by (simp add: processItem_def advance_def requestsFor_def)
  next
    case True
    obtain reqs outcome where t: "tryBody svc env ?v = (reqs, outcome)"
      by (cases "tryBody svc env ?v")
    have rest: "completeItem ?v outcome (beginItem ?v s) =
        s\<lparr>videos := videos (completeItem ?v outcome (beginItem ?v s))\<rparr>"
      by (simp add: completeItem_def updateVideoResult_def beginItem_def updateVideoStatus_def
          split: sum.splits)
    have whole: "completeItem ?v outcome (beginItem ?v s) =
        s\<lparr>videos := ?vs[?c := (case outcome of
           Inr m \<Rightarrow> ?v\<lparr>status := completed, title := title_r m, keywords_v := keywords_r m,
                     errorMessage := None\<rparr>
         | Inl e \<Rightarrow> ?v\<lparr>status := failed, title := [], keywords_v := [],
                     errorMessage := Some (messageOf e)\<rparr>)]\<rparr>"
      by (subst rest) (simp add: fin)
    show ?thesis
      using True t
      by (simp add: processItem_def advance_def requestsFor_def settled_def Let_def whole)
  qed
qed

lemma take_Suc_update:
  "c < length vs \<Longrightarrow> take (Suc c) (vs[c := w]) = take c vs @ [w]"
  by (simp add: take_Suc_conv_app_nth)

text \<open>
  A traversal that is neither stopped nor paused on the way visits every index from the
  cursor to the end of the queue.
\<close>

lemma processLoop_closed:
  assumes "distinct (map id_v (videos s))" and "isProcessing s" and "\<not> isPaused s"
  shows "processLoop svc env (l, s) =
           (l @ concat (map (requestsFor svc env) (drop (currentIndex s) (videos s))),
            s\<lparr>videos := take (currentIndex s) (videos s)
                         @ map (settled svc env) (drop (currentIndex s) (videos s)),
              currentIndex := max (currentIndex s) (length (videos s))\<rparr>)"
  using assms
proof (induction svc env "(l, s)" arbitrary: l s rule: processLoop.induct)
  case (1 svc env l s)
  let ?c = "currentIndex s" and ?vs = "videos s"
  show ?case
  proof (cases "loopGuard s")
    case False
    with "1.prems" have "length ?vs \<le> ?c"
      by (simp add: loopGuard_def)
    with False show ?thesis
      by (subst processLoop.simps) (simp add: max_def)
  next
    case True
    then have c: "?c < length ?vs"
      by (simp add: loopGuard_def)
    let ?w = "settled svc env (?vs ! ?c)"
    let ?s' = "s\<lparr>videos := ?vs[?c := ?w], currentIndex := ?c + 1\<rparr>"
    let ?l' = "l @ requestsFor svc env (?vs ! ?c)"
    have item: "processItem svc env (l, s) = (?l', ?s')"
      using "1.prems"(1) c by (rule processItem_closed)
    have d': "distinct (map id_v (videos ?s'))"
      using "1.prems"(1) c by (simp add: map_id_v_update)
    have "processLoop svc env (l, s) = processLoop svc env (?l', ?s')"
      using True by (subst processLoop.simps) (simp add: item)
    also have "\<dots> = (?l' @ concat (map (requestsFor svc env) (drop (currentIndex ?s') (videos ?s'))),
            ?s'\<lparr>videos := take (currentIndex ?s') (videos ?s')
                         @ map (settled svc env) (drop (currentIndex ?s') (videos ?s')),
              currentIndex := max (currentIndex ?s') (length (videos ?s'))\<rparr>)"
      using "1.hyps"[OF _ item d'] True "1.prems" by simp
    also have "\<dots> = (l @ concat (map (requestsFor svc env) (drop ?c ?vs)),
            s\<lparr>videos := take ?c ?vs @ map (settled svc env) (drop ?c ?vs),
              currentIndex := max ?c (length ?vs)\<rparr>)"
      using c by (simp add: take_Suc_update Cons_nth_drop_Suc[symmetric] max_def)
    finally show ?thesis .
  qed
qed

lemma processQueue_closed:
  assumes "distinct (map id_v (videos s))" and "isProcessing s" and "\<not> isPaused s"
  shows "processQueue svc env s =
           (concat (map (requestsFor svc env) (drop (currentIndex s) (videos s))),
            s\<lparr>videos := take (currentIndex s) (videos s)
                         @ map (settled svc env) (drop (currentIndex s) (videos s)),
              currentIndex := max (currentIndex s) (length (videos s)),
              isProcessing := False, processQueueRunning := False\<rparr>)"
  using assms
  by (simp add: processQueue_def processLoop_closed finishQueue_def)

section \<open>Failures of an item\<close>





lemma extractFrames_loaded:
  assumes "canvasContext env" and "loadVideo env f = LoadedMetadata D"
  shows "snd (extractFrames env f n) =
           Inr (map (\<lambda>k. toDataURL env f (D / real (n + 1) * real k)) [1..<Suc n])"
  using assms by (simp add: extractFrames_def framesLoop_unfold)


section \<open>Retry\<close>

lemma requestsFor_tagged:
  "r \<in> set (requestsFor svc env v) \<Longrightarrow> requestId r = id_v v \<and> eligible v"
  by (auto simp: requestsFor_def tryBody_def split: if_splits sum.splits)

lemma settled_not_eligible: "\<not> eligible v \<Longrightarrow> settled svc env v = v"
  by (simp add: settled_def)

lemma retryFailed_fields:
  "videos (snd (retryFailed s)) = videos s" "currentIndex (snd (retryFailed s)) = 0"
  by (simp_all add: retryFailed_def startProcessing_def)

lemma effect_after_retry:
  assumes "distinct (map id_v (videos s))"
  shows "(fst (effect svc env (snd (retryFailed s))) = concat (map (requestsFor svc env) (videos s))
          \<and> videos (snd (effect svc env (snd (retryFailed s)))) = map (settled svc env) (videos s))
       \<or> (fst (effect svc env (snd (retryFailed s))) = []
          \<and> videos (snd (effect svc env (snd (retryFailed s)))) = videos s)"
proof -
  let ?s1 = "snd (retryFailed s)"
  show ?thesis
  proof (cases "isProcessing ?s1 \<and> \<not> isPaused ?s1 \<and> \<not> processQueueRunning ?s1")
    case True
    then have "effect svc env ?s1 = processQueue svc env ?s1"
      by (simp add: effect_def)
    with True assms show ?thesis
      by (simp add: processQueue_closed retryFailed_fields)
  next
    case False
    then have "effect svc env ?s1 = ([], ?s1)"
      by (auto simp: effect_def)
    then show ?thesis
      by (simp add: retryFailed_fields)
  qed
qed

text \<open>
  C4. For a queue with distinct ids, a retry request sets the cursor to 0. In the traversal
  that the effect launches after it (if it launches one), every call to the frame extractor
  or to the inference service is made for an item that was pending or failed, and every item
  that was neither is left as it was. In particular an item completed before the retry is
  the same item after the pass, with its title, keywords, thumbnail and errorMessage, and no
  call is made for it.
\<close>

theorem retry_leaves_completed_items:
  assumes "distinct (map id_v (videos s))" and "i < length (videos s)"
    and "status (videos s ! i) = completed"
  shows "currentIndex (snd (retryFailed s)) = 0
     \<and> length (videos (snd (effect svc env (snd (retryFailed s))))) = length (videos s)
     \<and> videos (snd (effect svc env (snd (retryFailed s)))) ! i = videos s ! i
     \<and> (\<forall>r \<in> set (fst (effect svc env (snd (retryFailed s)))).
            requestId r \<noteq> id_v (videos s ! i)
            \<and> (\<exists>v \<in> set (videos s). eligible v \<and> requestId r = id_v v))
     \<and> (\<forall>j < length (videos s). \<not> eligible (videos s ! j)
            \<longrightarrow> videos (snd (effect svc env (snd (retryFailed s)))) ! j = videos s ! j)"
proof -
  let ?out = "effect svc env (snd (retryFailed s))"
  have ne: "\<not> eligible (videos s ! i)"
    using assms(3) by (simp add: eligible_def)
  have same: "videos (snd ?out) ! j = videos s ! j"
    if "j < length (videos s)" and "\<not> eligible (videos s ! j)" for j
    using effect_after_retry[OF assms(1), of svc env] that
    by (auto simp: settled_not_eligible)
  have len: "length (videos (snd ?out)) = length (videos s)"
    using effect_after_retry[OF assms(1), of svc env] by auto
  have reqs: "requestId r \<noteq> id_v (videos s ! i)
      \<and> (\<exists>v \<in> set (videos s). eligible v \<and> requestId r = id_v v)"
    if r: "r \<in> set (fst ?out)" for r
  proof -
    from r effect_after_retry[OF assms(1), of svc env]
    have "r \<in> set (concat (map (requestsFor svc env) (videos s)))"
      by auto
    then obtain v where v: "v \<in> set (videos s)" "r \<in> set (requestsFor svc env v)"
      by auto
    then have tag: "requestId r = id_v v" "eligible v"
      using requestsFor_tagged by blast+
    have "id_v v \<noteq> id_v (videos s ! i)"
    proof
      assume eq: "id_v v = id_v (videos s ! i)"
      have "inj_on id_v (set (videos s))"
        using assms(1) by (simp add: distinct_map)
      moreover have "videos s ! i \<in> set (videos s)"
        using assms(2) by simp
      ultimately have "v = videos s ! i"
        using v(1) eq by (auto dest: inj_onD)
      with tag(2) ne show False by simp
    qed
    with tag v(1) show ?thesis by auto
  qed
  show ?thesis
    using same[OF assms(2) ne] same len reqs by (simp add: retryFailed_fields)
qed

lemma tryBody_good:
  "snd (tryBody svcKey envGood v) = Inr answer"
  "fst (tryBody svcKey envGood v) =
     [ExtractFramesCall (id_v v) (file_v v) 8,
      GenerateMetadataCall (id_v v) (replicate 8 ''data:image/jpeg;base64,AAAA'')]"
proof -
  have "snd (extractFrames envGood (file_v v) 8) = Inr (replicate 8 ''data:image/jpeg;base64,AAAA'')"
    by (simp add: extractFrames_loaded[of _ _ 9] envGood_def upt_conv_Cons numeral_eq_Suc)
  then show "snd (tryBody svcKey envGood v) = Inr answer"
    "fst (tryBody svcKey envGood v) =
     [ExtractFramesCall (id_v v) (file_v v) 8,
      GenerateMetadataCall (id_v v) (replicate 8 ''data:image/jpeg;base64,AAAA'')]"
    by (simp_all add: tryBody_def generateMetadataFromFrames_def svcKey_def newGeminiService_def
        truthy_def envGood_def)
qed

theorem retry_leaves_completed_items_witness:
  "currentIndex (snd (retryFailed afterFirstPass)) = 0
   \<and> videos (snd (effect svcKey envGood (snd (retryFailed afterFirstPass)))) ! 0
       = (newVideo clip ''u1'')\<lparr>thumbnail := Some ''thumb'', status := completed, title := ''Old'',
                                keywords_v := [''k'']\<rparr>
   \<and> map status (videos (snd (effect svcKey envGood (snd (retryFailed afterFirstPass)))))
       = [completed, completed]
   \<and> map requestId (fst (effect svcKey envGood (snd (retryFailed afterFirstPass))))
       = [''u2'', ''u2'']"
proof -
  have h: "distinct (map id_v (videos afterFirstPass))" "0 < length (videos afterFirstPass)"
    "status (videos afterFirstPass ! 0) = completed"
    by (simp_all add: afterFirstPass_def newVideo_def)
  have r: "snd (retryFailed afterFirstPass)
      = afterFirstPass\<lparr>currentIndex := 0, isProcessing := True, isPaused := False\<rparr>"
    by (simp add: retryFailed_def startProcessing_def afterFirstPass_def)
  let ?s1 = "afterFirstPass\<lparr>currentIndex := 0, isProcessing := True, isPaused := False\<rparr>"
  have p: "distinct (map id_v (videos ?s1))" "isProcessing ?s1" "\<not> isPaused ?s1"
    "\<not> processQueueRunning ?s1"
    by (simp_all add: afterFirstPass_def newVideo_def)
  have e: "effect svcKey envGood (snd (retryFailed afterFirstPass))
      = processQueue svcKey envGood ?s1"
    unfolding r using p by (simp add: effect_def)
  have q: "map status (videos (snd (effect svcKey envGood (snd (retryFailed afterFirstPass)))))
       = [completed, completed]"
    "map requestId (fst (effect svcKey envGood (snd (retryFailed afterFirstPass))))
       = [''u2'', ''u2'']"
    unfolding e processQueue_closed[OF p(1-3)]
    by (simp_all add: afterFirstPass_def newVideo_def settled_def requestsFor_def eligible_def
          tryBody_good)
  from retry_leaves_completed_items[OF h, of svcKey envGood] q show ?thesis
    by (simp add: afterFirstPass_def)
qed

section \<open>A queue of two videos\<close>

lemma tryBody_answers:
  assumes "isConfigured svc" and "canvasContext env" and "loadVideo env (file_v v) = LoadedMetadata d"
    and "\<forall>p. generateContent env p = Some m"
  shows "snd (tryBody svc env v) = Inr m"
  using assms
  by (simp add: tryBody_def extractFrames_loaded generateMetadataFromFrames_def isConfigured_def)

text \<open>
  C5. Two video files are submitted to a freshly constructed component whose inference
  client is configured; each loads, and the remote call answers with the title \<open>T\<close> and
  the keywords \<open>a\<close>, \<open>b\<close>. The submission starts the processing, and once the
  traversal launched by the effect has run, both items are completed with that title and
  those keywords, the cursor is 2 and isProcessing is false.
\<close>

theorem two_videos_drain:
  assumes "isConfigured svc"
    and "startsWith (type_f f1) ''video/''" and "startsWith (type_f f2) ''video/''"
    and "u1 \<noteq> u2"
    and "canvasContext env"
    and "loadVideo env f1 = LoadedMetadata d1" and "loadVideo env f2 = LoadedMetadata d2"
    and "\<forall>p. generateContent env p = Some \<lparr>title_r = ''T'', keywords_r = [''a'', ''b'']\<rparr>"
  shows "map status (videos (snd (effect svc env
            (snd (snd (onFileSelected (Some [f1, f2]) [u1, u2] (newAppComponent svc)))))))
           = [completed, completed]
     \<and> map title (videos (snd (effect svc env
            (snd (snd (onFileSelected (Some [f1, f2]) [u1, u2] (newAppComponent svc)))))))
           = [''T'', ''T'']
     \<and> map keywords_v (videos (snd (effect svc env
            (snd (snd (onFileSelected (Some [f1, f2]) [u1, u2] (newAppComponent svc)))))))
           = [[''a'', ''b''], [''a'', ''b'']]
     \<and> currentIndex (snd (effect svc env
            (snd (snd (onFileSelected (Some [f1, f2]) [u1, u2] (newAppComponent svc)))))) = 2
     \<and> \<not> isProcessing (snd (effect svc env
            (snd (snd (onFileSelected (Some [f1, f2]) [u1, u2] (newAppComponent svc))))))"
proof -
  let ?s1 = "snd (snd (onFileSelected (Some [f1, f2]) [u1, u2] (newAppComponent svc)))"
  have s1: "?s1 = \<lparr>videos = [newVideo f1 u1, newVideo f2 u2], isProcessing = True,
      isPaused = False, currentIndex = 0, apiKeyMissing = False, processQueueRunning = False\<rparr>"
    using assms(1-3)
    by (simp add: onFileSelected_def newAppComponent_def startProcessing_def Let_def)
  have e: "effect svc env ?s1 = processQueue svc env ?s1"
    by (simp add: s1 effect_def)
  have t: "snd (tryBody svc env (newVideo f u)) = Inr \<lparr>title_r = ''T'', keywords_r = [''a'', ''b'']\<rparr>"
    if "loadVideo env f = LoadedMetadata d" for f u d
    using assms(1,5) _ assms(8) by (rule tryBody_answers) (simp add: newVideo_def that)
  have d: "distinct (map id_v (videos ?s1))"
    using assms(4) by (simp add: s1 newVideo_def)
  have "snd (processQueue svc env ?s1) =
      ?s1\<lparr>videos := [settled svc env (newVideo f1 u1), settled svc env (newVideo f2 u2)],
          currentIndex := 2, isProcessing := False, processQueueRunning := False\<rparr>"
    by (subst processQueue_closed[OF d]) (simp_all add: s1)
  moreover have "settled svc env (newVideo f1 u1) =
      (newVideo f1 u1)\<lparr>status := completed, title := ''T'', keywords_v := [''a'', ''b''],
        errorMessage := None\<rparr>"
    "settled svc env (newVideo f2 u2) =
      (newVideo f2 u2)\<lparr>status := completed, title := ''T'', keywords_v := [''a'', ''b''],
        errorMessage := None\<rparr>"
    using t[OF assms(6)] t[OF assms(7)]
    by (simp_all add: settled_def) (simp_all add: eligible_def newVideo_def)
  ultimately show ?thesis
    by (simp add: e)
qed

theorem two_videos_drain_witness:
  "map status (videos (snd (effect svcKey envGood
      (snd (snd (onFileSelected (Some [clip, trailer]) [''u1'', ''u2''] (newAppComponent svcKey)))))))
     = [completed, completed]
   \<and> map title (videos (snd (effect svcKey envGood
      (snd (snd (onFileSelected (Some [clip, trailer]) [''u1'', ''u2''] (newAppComponent svcKey)))))))
     = [''T'', ''T'']
   \<and> map keywords_v (videos (snd (effect svcKey envGood
      (snd (snd (onFileSelected (Some [clip, trailer]) [''u1'', ''u2''] (newAppComponent svcKey)))))))
     = [[''a'', ''b''], [''a'', ''b'']]
   \<and> currentIndex (snd (effect svcKey envGood
      (snd (snd (onFileSelected (Some [clip, trailer]) [''u1'', ''u2''] (newAppComponent svcKey))))))
     = 2
   \<and> \<not> isProcessing (snd (effect svcKey envGood
      (snd (snd (onFileSelected (Some [clip, trailer]) [''u1'', ''u2''] (newAppComponent svcKey))))))"
proof -
  have h: "isConfigured svcKey" "startsWith (type_f clip) ''video/''"
    "startsWith (type_f trailer) ''video/''" "''u1'' \<noteq> ''u2''" "canvasContext envGood"
    "loadVideo envGood clip = LoadedMetadata 9" "loadVideo envGood trailer = LoadedMetadata 9"
    "\<forall>p. generateContent envGood p = Some \<lparr>title_r = ''T'', keywords_r = [''a'', ''b'']\<rparr>"
    by (simp_all add: isConfigured_def svcKey_def newGeminiService_def truthy_def startsWith_def
        clip_def trailer_def envGood_def answer_def)
  show ?thesis
    by (rule two_videos_drain[OF h])
qed

section \<open>The invariant of the items\<close>

lemma wellFormed_flags [simp]:
  "wellFormed (s\<lparr>isProcessing := b\<rparr>) = wellFormed s"
  "wellFormed (s\<lparr>isPaused := b\<rparr>) = wellFormed s"
  "wellFormed (s\<lparr>currentIndex := n\<rparr>) = wellFormed s"
  "wellFormed (s\<lparr>processQueueRunning := b\<rparr>) = wellFormed s"
  by (simp_all add: wellFormed_def)

lemma wellFormed_map:
  assumes "wellFormed s" and "\<And>v. id_v (g v) = id_v v"
    and "\<And>v. v \<in> set (videos s) \<Longrightarrow> itemInvariant v \<Longrightarrow> itemInvariant (g v)"
  shows "wellFormed (s\<lparr>videos := map g (videos s)\<rparr>)"
proof -
  have "map id_v (map g (videos s)) = map id_v (videos s)"
    using assms(2) by (induction "videos s") auto
  then have "distinct (map id_v (map g (videos s)))"
    using assms(1) by (simp only: wellFormed_def)
  moreover have "list_all itemInvariant (map g (videos s))"
    using assms(1,3) by (simp add: wellFormed_def list_all_iff)
  ultimately show ?thesis
    by (simp only: wellFormed_def) simp
qed

lemma wellFormed_completeItem:
  "wellFormed s \<Longrightarrow> wellFormed (completeItem video outcome s)"
  unfolding completeItem_def updateVideoResult_def
  by (cases outcome; simp; rule wellFormed_map) (simp_all add: itemInvariant_def)

lemma wellFormed_beginItem:
  assumes "wellFormed s" and "video \<in> set (videos s)" and "eligible video"
  shows "wellFormed (beginItem video s)"
  unfolding beginItem_def updateVideoStatus_def
proof (rule wellFormed_map[OF assms(1)])
  fix v :: VideoMetadata
  show "id_v (if id_v v = id_v video then v\<lparr>status := processing, errorMessage := None\<rparr> else v)
      = id_v v"
    by simp
  assume v: "v \<in> set (videos s)" and ok: "itemInvariant v"
  show "itemInvariant
      (if id_v v = id_v video then v\<lparr>status := processing, errorMessage := None\<rparr> else v)"
  proof (cases "id_v v = id_v video")
    case False
    with ok show ?thesis by simp
  next
    case True
    have "inj_on id_v (set (videos s))"
      using assms(1) by (simp add: wellFormed_def distinct_map)
    with v assms(2) True have "v = video"
      by (auto dest: inj_onD)
    with ok assms(3) True show ?thesis
      by (auto simp: itemInvariant_def eligible_def)
  qed
qed

lemma wellFormed_advance [simp]: "wellFormed (advance s) = wellFormed s"
  by (simp add: advance_def)

lemma wellFormed_finishQueue [simp]: "wellFormed (finishQueue s) = wellFormed s"
  by (simp add: finishQueue_def)

lemma wellFormed_runUntilAwait:
  "wellFormed s \<Longrightarrow> wellFormed (app (runUntilAwait s))"
proof (induction s rule: runUntilAwait.induct)
  case (1 s)
  show ?case
  proof (cases "loopGuard s")
    case False
    with "1.prems" show ?thesis
      by (subst runUntilAwait.simps) simp
  next
    case True
    then have "videos s ! currentIndex s \<in> set (videos s)"
      by (simp add: loopGuard_def)
    with True 1 show ?thesis
      by (subst runUntilAwait.simps) (simp add: Let_def wellFormed_beginItem)
  qed
qed

lemma wellFormed_generateThumbnail:
  "wellFormed s \<Longrightarrow> wellFormed (snd (generateThumbnail env video s))"
  unfolding generateThumbnail_def
  by (cases "snd (extractSingleFrame env (file_v video) 1)"; simp; rule wellFormed_map)
     (simp_all add: itemInvariant_def)

lemma itemInvariant_newVideo [simp]: "itemInvariant (newVideo f u)"
  by (simp add: itemInvariant_def newVideo_def)

lemma id_v_map2_newVideo: "map id_v (map2 newVideo fs us) = map snd (zip fs us)"
  by (simp add: newVideo_def case_prod_unfold)

lemma wellFormed_onFileSelected:
  assumes "wellFormed s" and "freshIds files uuids s"
  shows "wellFormed (snd (snd (onFileSelected files uuids s)))"
proof (cases files)
  case None
  with assms show ?thesis by (simp add: onFileSelected_def)
next
  case (Some fs)
  let ?fs = "filter (\<lambda>f. startsWith (type_f f) ''video/'') fs"
  let ?new = "map2 newVideo ?fs uuids"
  from assms(2) Some have len: "length uuids = length ?fs" and d: "distinct uuids"
    and fresh: "\<forall>u \<in> set uuids. u \<notin> set (map id_v (videos s))"
    by (simp_all add: freshIds_def list_all_iff)
  have ids: "map id_v ?new = uuids"
    using len by (simp add: id_v_map2_newVideo del: map_map)
  have "list_all itemInvariant ?new"
    by (auto simp: list_all_iff dest!: set_zip_leftD set_zip_rightD)
  with assms(1) ids d fresh have "wellFormed (s\<lparr>videos := videos s @ ?new\<rparr>)"
    by (auto simp: wellFormed_def simp del: map_map)
  with Some show ?thesis
    by (simp add: onFileSelected_def Let_def startProcessing_def split: prod.splits)
qed

lemma fire_wellFormed:
  assumes "wellFormed (app sys)" and "fire e sys = Some sys'"
  shows "wellFormed (app sys')"
proof (cases e)
  case (Select files uuids)
  with assms show ?thesis
    by (auto simp: wellFormed_onFileSelected split: if_splits)
next
  case (ThumbnailDone env video)
  with assms show ?thesis
    by (auto simp: wellFormed_generateThumbnail)
next
  case Launch
  with assms show ?thesis
    by (auto simp: wellFormed_runUntilAwait split: if_splits)
next
  case (Settle outcome)
  with assms show ?thesis
    by (auto simp: wellFormed_runUntilAwait wellFormed_completeItem split: option.splits)
next
  case Clear
  with assms show ?thesis
    by (auto simp: clearAll_def wellFormed_def)
qed (use assms in \<open>auto simp: startProcessing_def pauseProcessing_def resumeProcessing_def
      stopProcessing_def retryFailed_def\<close>)

lemma run_wellFormed:
  "wellFormed (app sys) \<Longrightarrow> run es sys = Some sys' \<Longrightarrow> wellFormed (app sys')"
  by (induction es arbitrary: sys) (auto split: option.splits dest: fire_wellFormed)

lemma wellFormed_initial: "wellFormed (app (initial svc))"
  by (simp add: initial_def newAppComponent_def wellFormed_def)

text \<open>
  C8. In every state the component reaches, by whatever sequence of events, every queued
  item has a non-null errorMessage only if it is failed, and a non-empty title or keyword
  list only if it is completed: pending, processing and failed items carry the empty title
  and no keywords. Every event (a submission with new ids, the end of a thumbnail
  generation, each request of the user, the launch of the traversal and the end of the
  awaited calls of an item) keeps a well-formed queue well formed.
\<close>

theorem items_keep_invariant:
  "(run es (initial svc) = Some sys \<longrightarrow> (\<forall>v \<in> set (videos (app sys)). itemInvariant v))
   \<and> (wellFormed (app sys) \<and> fire e sys = Some sys' \<longrightarrow> wellFormed (app sys'))"
  using run_wellFormed[OF wellFormed_initial, of es svc sys] fire_wellFormed[of sys e sys']
  by (auto simp: wellFormed_def list_all_iff)

text \<open>The sample pass ends in the sample system; a retry is requested there.\<close>

lemma run_firstPass: "run firstPass (initial svcKey) = Some passed"
  by (simp add: firstPass_def passed_def initial_def newAppComponent_def svcKey_def
      newGeminiService_def truthy_def isConfigured_def freshIds_def startsWith_def badClip_def
      clip_def onFileSelected_def startProcessing_def Let_def newVideo_def
      runUntilAwait.simps loopGuard_def eligible_def beginItem_def updateVideoStatus_def
      completeItem_def updateVideoResult_def advance_def finishQueue_def messageOf_def answer_def)

theorem items_keep_invariant_witness:
  "run firstPass (initial svcKey) = Some passed
   \<and> map status (videos (app passed)) = [failed, completed]
   \<and> list_all itemInvariant (videos (app passed))
   \<and> fire Retry passed = Some (passed\<lparr>app := (app passed)\<lparr>currentIndex := 0, isProcessing := True\<rparr>\<rparr>)
   \<and> wellFormed ((app passed)\<lparr>currentIndex := 0, isProcessing := True\<rparr>)"
proof -
  have w: "wellFormed (app passed)"
    by (simp add: wellFormed_def passed_def newVideo_def itemInvariant_def)
  have f: "fire Retry passed
      = Some (passed\<lparr>app := (app passed)\<lparr>currentIndex := 0, isProcessing := True\<rparr>\<rparr>)"
    by (simp add: retryFailed_def startProcessing_def passed_def)
  have st: "map status (videos (app passed)) = [failed, completed]"
    by (simp add: passed_def newVideo_def)
  from items_keep_invariant
    [of firstPass svcKey passed Retry
      "passed\<lparr>app := (app passed)\<lparr>currentIndex := 0, isProcessing := True\<rparr>\<rparr>"]
    run_firstPass w f st
  show ?thesis
    by (simp add: list_all_iff)
qed

section \<open>The uninterrupted traversal among the events\<close>

text \<open>
  \<^verbatim>\<open>processQueue\<close> run to its end is one run of the events: the launch, then one
  \<open>Settle\<close> per item it waited for.
\<close>

lemma processLoop_as_events:
  "\<exists>outcomes. run (map Settle outcomes) (runUntilAwait (snd ls))
       = Some \<lparr>app = finishQueue (snd (processLoop svc env ls)), awaiting = None\<rparr>"
proof (induction svc env ls rule: processLoop.induct)
  case (1 svc env ls)
  let ?s = "snd ls"
  let ?v = "videos ?s ! currentIndex ?s"
  show ?case
  proof (cases "loopGuard ?s")
    case False
    then have "run (map Settle []) (runUntilAwait ?s)
        = Some \<lparr>app = finishQueue (snd (processLoop svc env ls)), awaiting = None\<rparr>"
      by (subst runUntilAwait.simps, subst processLoop.simps) simp
    then show ?thesis by blast
  next
    case True
    from "1.IH"[OF True] obtain outcomes where
      ih: "run (map Settle outcomes) (runUntilAwait (snd (processItem svc env ls)))
        = Some \<lparr>app = finishQueue (snd (processLoop svc env (processItem svc env ls))),
                awaiting = None\<rparr>"
      by blast
    have loop: "processLoop svc env ls = processLoop svc env (processItem svc env ls)"
      using True by (subst processLoop.simps) simp
    show ?thesis
    proof (cases "eligible ?v")
      case False
      with True have "runUntilAwait ?s = runUntilAwait (snd (processItem svc env ls))"
        by (subst runUntilAwait.simps) (simp add: processItem_def Let_def)
      with ih loop show ?thesis by auto
    next
      case e: True
      obtain reqs outcome where t: "tryBody svc env ?v = (reqs, outcome)"
        by (cases "tryBody svc env ?v")
      have "runUntilAwait ?s = \<lparr>app = beginItem ?v ?s, awaiting = Some ?v\<rparr>"
        using True e by (subst runUntilAwait.simps) (simp add: Let_def)
      moreover have "snd (processItem svc env ls)
          = advance (completeItem ?v outcome (beginItem ?v ?s))"
        using e t by (simp add: processItem_def Let_def)
      ultimately have "run (map Settle (outcome # outcomes)) (runUntilAwait ?s)
          = Some \<lparr>app = finishQueue (snd (processLoop svc env ls)), awaiting = None\<rparr>"
        using ih loop by simp
      then show ?thesis by blast
    qed
  qed
qed

lemma processQueue_as_events:
  assumes "isProcessing s" and "\<not> isPaused s" and "\<not> processQueueRunning s"
  shows "\<exists>outcomes. run (Launch # map Settle outcomes) \<lparr>app = s, awaiting = a\<rparr>
       = Some \<lparr>app = snd (processQueue svc env s), awaiting = None\<rparr>"
proof -
  obtain outcomes where
    "run (map Settle outcomes) (runUntilAwait (snd ([] :: request list, s\<lparr>processQueueRunning := True\<rparr>)))
       = Some \<lparr>app = finishQueue (snd (processLoop svc env ([], s\<lparr>processQueueRunning := True\<rparr>))),
               awaiting = None\<rparr>"
    using processLoop_as_events by blast
  with assms have "run (Launch # map Settle outcomes) \<lparr>app = s, awaiting = a\<rparr>
       = Some \<lparr>app = snd (processQueue svc env s), awaiting = None\<rparr>"
    by (simp add: processQueue_def split: prod.splits)
  then show ?thesis by blast
qed

end
